theory Spec2Isabelle
  imports Main "HOL-Library.Sublist" "HOL-Library.AList"
begin

section \<open>Data model (src/models/Task.ts)\<close>

text \<open>
  Strings are sequences of 8-bit code units (Latin-1 text). A JavaScript \<open>Date\<close> holds a
  time value in milliseconds since the epoch, or NaN (an invalid date).
\<close>

datatype priority = Low | Medium | High

datatype status = Todo | InProgress | Completed

datatype jsDate = Date int | InvalidDate

record task =
  task_id :: string
  title :: string
  description :: "string option"
  createdAt :: jsDate
  updatedAt :: jsDate
  dueDate :: "jsDate option"
  priority :: priority
  status :: status
  categoryId :: "string option"

record category =
  cat_id :: string
  cat_name :: string
  cat_color :: string

text \<open>\<open>Omit<Task, 'id' | 'createdAt' | 'updatedAt'>\<close>: the argument of \<open>addTask\<close>.\<close>

record taskInput =
  i_title :: string
  i_description :: "string option"
  i_dueDate :: "jsDate option"
  i_priority :: priority
  i_status :: status
  i_categoryId :: "string option"

text \<open>
  \<open>Partial<Task>\<close>: every key may be absent (\<open>None\<close>). For the optional fields of
  \<open>Task\<close> a present key may carry \<open>undefined\<close> (\<open>Some None\<close>), which the object spread
  copies like any other value. Required fields are taken with values of their declared type.
\<close>

record taskPatch =
  p_id :: "string option"
  p_title :: "string option"
  p_description :: "string option option"
  p_createdAt :: "jsDate option"
  p_updatedAt :: "jsDate option"
  p_dueDate :: "jsDate option option"
  p_priority :: "priority option"
  p_status :: "status option"
  p_categoryId :: "string option option"

record categoryInput =
  ci_name :: string
  ci_color :: string

record categoryPatch =
  cp_id :: "string option"
  cp_name :: "string option"
  cp_color :: "string option"

record appState =
  tasks :: "task list"
  categories :: "category list"

section \<open>State container (src/contexts/TaskContext.tsx)\<close>

text \<open>
  The identifier returned by \<open>uuidv4()\<close> and the readings of the clock (\<open>new Date()\<close>)
  are inputs of the operations. \<open>addTask\<close> reads the clock twice, once for each timestamp.
\<close>

definition newTask :: "taskInput \<Rightarrow> string \<Rightarrow> int \<Rightarrow> int \<Rightarrow> task" where
  "newTask inp uuid clock1 clock2 =
     \<lparr> task_id = uuid, title = i_title inp, description = i_description inp,
       createdAt = Date clock1, updatedAt = Date clock2, dueDate = i_dueDate inp,
       priority = i_priority inp, status = i_status inp, categoryId = i_categoryId inp \<rparr>"

definition addTask :: "taskInput \<Rightarrow> string \<Rightarrow> int \<Rightarrow> int \<Rightarrow> task list \<Rightarrow> task list" where
  "addTask inp uuid clock1 clock2 prevTasks = prevTasks @ [newTask inp uuid clock1 clock2]"

text \<open>\<open>{ ...task, ...updatedFields, updatedAt: new Date() }\<close>\<close>

definition applyPatch :: "taskPatch \<Rightarrow> int \<Rightarrow> task \<Rightarrow> task" where
  "applyPatch updatedFields now t =
     \<lparr> task_id = (case p_id updatedFields of None \<Rightarrow> task_id t | Some v \<Rightarrow> v),
       title = (case p_title updatedFields of None \<Rightarrow> title t | Some v \<Rightarrow> v),
       description = (case p_description updatedFields of None \<Rightarrow> description t | Some v \<Rightarrow> v),
       createdAt = (case p_createdAt updatedFields of None \<Rightarrow> createdAt t | Some v \<Rightarrow> v),
       updatedAt = Date now,
       dueDate = (case p_dueDate updatedFields of None \<Rightarrow> dueDate t | Some v \<Rightarrow> v),
       priority = (case p_priority updatedFields of None \<Rightarrow> priority t | Some v \<Rightarrow> v),
       status = (case p_status updatedFields of None \<Rightarrow> status t | Some v \<Rightarrow> v),
       categoryId = (case p_categoryId updatedFields of None \<Rightarrow> categoryId t | Some v \<Rightarrow> v) \<rparr>"

text \<open>
  The callback of \<open>prevTasks.map\<close> reads the clock when it reaches a task with the given
  identifier: \<open>clock k\<close> is the reading taken at list position \<open>k\<close>.
\<close>

definition updateTask :: "string \<Rightarrow> taskPatch \<Rightarrow> (nat \<Rightarrow> int) \<Rightarrow> task list \<Rightarrow> task list" where
  "updateTask i updatedFields clock prevTasks =
     map (\<lambda>(k, t). if task_id t = i then applyPatch updatedFields (clock k) t else t)
       (enumerate 0 prevTasks)"

definition deleteTask :: "string \<Rightarrow> task list \<Rightarrow> task list" where
  "deleteTask i prevTasks = filter (\<lambda>t. task_id t \<noteq> i) prevTasks"

definition addCategory :: "categoryInput \<Rightarrow> string \<Rightarrow> category list \<Rightarrow> category list" where
  "addCategory inp uuid prevCategories =
     prevCategories @ [\<lparr> cat_id = uuid, cat_name = ci_name inp, cat_color = ci_color inp \<rparr>]"

definition applyCategoryPatch :: "categoryPatch \<Rightarrow> category \<Rightarrow> category" where
  "applyCategoryPatch updatedFields c =
     \<lparr> cat_id = (case cp_id updatedFields of None \<Rightarrow> cat_id c | Some v \<Rightarrow> v),
       cat_name = (case cp_name updatedFields of None \<Rightarrow> cat_name c | Some v \<Rightarrow> v),
       cat_color = (case cp_color updatedFields of None \<Rightarrow> cat_color c | Some v \<Rightarrow> v) \<rparr>"

definition updateCategory :: "string \<Rightarrow> categoryPatch \<Rightarrow> category list \<Rightarrow> category list" where
  "updateCategory i updatedFields prevCategories =
     map (\<lambda>c. if cat_id c = i then applyCategoryPatch updatedFields c else c) prevCategories"

text \<open>\<open>deleteCategory\<close> updates both collections.\<close>

definition clearCategory :: "string \<Rightarrow> task list \<Rightarrow> task list" where
  "clearCategory i prevTasks =
     map (\<lambda>t. if categoryId t = Some i then t\<lparr>categoryId := None\<rparr> else t) prevTasks"

definition deleteCategory :: "string \<Rightarrow> appState \<Rightarrow> appState" where
  "deleteCategory i s =
     \<lparr> tasks = clearCategory i (tasks s),
       categories = filter (\<lambda>c. cat_id c \<noteq> i) (categories s) \<rparr>"

text \<open>
  An operation of the context together with the values it obtains from the identifier
  generator and the clock. Each operation ends with a call of \<open>toast.success\<close>.
\<close>

datatype operation =
    AddTask taskInput string int int
  | UpdateTask string taskPatch "nat \<Rightarrow> int"
  | DeleteTask string
  | AddCategory categoryInput string
  | UpdateCategory string categoryPatch
  | DeleteCategory string

datatype toast = ToastSuccess string | ToastError string

fun perform :: "operation \<Rightarrow> appState \<Rightarrow> toast \<times> appState" where
  "perform (AddTask inp uuid c1 c2) s =
     (ToastSuccess ''Task added successfully'', s\<lparr>tasks := addTask inp uuid c1 c2 (tasks s)\<rparr>)"
| "perform (UpdateTask i p clock) s =
     (ToastSuccess ''Task updated successfully'', s\<lparr>tasks := updateTask i p clock (tasks s)\<rparr>)"
| "perform (DeleteTask i) s =
     (ToastSuccess ''Task deleted successfully'', s\<lparr>tasks := deleteTask i (tasks s)\<rparr>)"
| "perform (AddCategory inp uuid) s =
     (ToastSuccess ''Category added successfully'',
      s\<lparr>categories := addCategory inp uuid (categories s)\<rparr>)"
| "perform (UpdateCategory i p) s =
     (ToastSuccess ''Category updated successfully'',
      s\<lparr>categories := updateCategory i p (categories s)\<rparr>)"
| "perform (DeleteCategory i) s =
     (ToastSuccess ''Category deleted successfully'', deleteCategory i s)"

text \<open>A sequence of operations, applied from left to right.\<close>

fun run :: "operation list \<Rightarrow> appState \<Rightarrow> appState" where
  "run [] s = s"
| "run (op # ops) s = run ops (snd (perform op s))"

definition taskIds :: "appState \<Rightarrow> string list" where
  "taskIds s = map task_id (tasks s)"

text \<open>
  The assumptions under which identifiers stay unique: the generator returns an identifier
  that no task of the current collection has, and a patch does not give a task another
  identifier.
\<close>

fun admissible :: "operation \<Rightarrow> appState \<Rightarrow> bool" where
  "admissible (AddTask inp uuid c1 c2) s = (uuid \<notin> set (taskIds s))"
| "admissible (UpdateTask i p clock) s = (p_id p = None \<or> p_id p = Some i)"
| "admissible _ s = True"

fun admissibleRun :: "operation list \<Rightarrow> appState \<Rightarrow> bool" where
  "admissibleRun [] s = True"
| "admissibleRun (op # ops) s = (admissible op s \<and> admissibleRun ops (snd (perform op s)))"

text \<open>\<open>precedes a b xs\<close>: some occurrence of \<open>a\<close> in \<open>xs\<close> comes before some occurrence of \<open>b\<close>.\<close>

fun precedes :: "'a \<Rightarrow> 'a \<Rightarrow> 'a list \<Rightarrow> bool" where
  "precedes a b [] = False"
| "precedes a b (x # xs) = ((x = a \<and> b \<in> set xs) \<or> precedes a b xs)"

text \<open>The task identifier \<open>a\<close> is in the collection before, between and after the operations.\<close>

fun presentThroughout :: "string \<Rightarrow> operation list \<Rightarrow> appState \<Rightarrow> bool" where
  "presentThroughout a [] s = (a \<in> set (taskIds s))"
| "presentThroughout a (op # ops) s =
     (a \<in> set (taskIds s) \<and> presentThroughout a ops (snd (perform op s)))"

text \<open>
  Following a task through the operations. \<open>positionAfter op s k\<close> is the list position,
  after the operation, of the task that is at position \<open>k\<close> before it, and \<open>None\<close> when
  the operation removes that task: \<open>deleteTask\<close> moves a task that it keeps in front by
  the number of tasks before it that it removes, and no other operation moves or removes a
  task. \<open>taskAfter op k t\<close> is what the operation makes of a task \<open>t\<close> at position \<open>k\<close>
  that it keeps, and \<open>track\<close> follows a position through a sequence of operations.
\<close>

definition positionAfter :: "operation \<Rightarrow> appState \<Rightarrow> nat \<Rightarrow> nat option" where
  "positionAfter op s k =
     (case op of
        DeleteTask i \<Rightarrow>
          if task_id (tasks s ! k) = i then None
          else Some (length (deleteTask i (take k (tasks s))))
      | _ \<Rightarrow> Some k)"

definition taskAfter :: "operation \<Rightarrow> nat \<Rightarrow> task \<Rightarrow> task" where
  "taskAfter op k t =
     (case op of
        UpdateTask i p clock \<Rightarrow> if task_id t = i then applyPatch p (clock k) t else t
      | DeleteCategory c \<Rightarrow> if categoryId t = Some c then t\<lparr>categoryId := None\<rparr> else t
      | _ \<Rightarrow> t)"

fun track :: "operation list \<Rightarrow> appState \<Rightarrow> nat \<Rightarrow> nat option" where
  "track [] s k = Some k"
| "track (op # ops) s k =
     (case positionAfter op s k of
        None \<Rightarrow> None
      | Some k' \<Rightarrow> track ops (snd (perform op s)) k')"

section \<open>Derived view builder (component TaskManager)\<close>

subsection \<open>Filtering\<close>

text \<open>
  \<open>String.prototype.toLowerCase\<close> on Latin-1 code units: the letters A to Z and the
  letters U+00C0 to U+00DE other than the multiplication sign U+00D7 move up by 32.
\<close>

definition toLowerCaseChar :: "char \<Rightarrow> char" where
  "toLowerCaseChar c =
     (let n = (of_char c :: nat)
      in if (65 \<le> n \<and> n \<le> 90) \<or> (192 \<le> n \<and> n \<le> 222 \<and> n \<noteq> 215)
         then char_of (n + 32) else c)"

definition toLowerCase :: "string \<Rightarrow> string" where
  "toLowerCase s = map toLowerCaseChar s"

text \<open>\<open>s.includes(sub)\<close>, named \<open>includesStr\<close> here: \<open>sub\<close> starts at some position of \<open>s\<close>.\<close>

fun includesStr :: "string \<Rightarrow> string \<Rightarrow> bool" where
  "includesStr [] sub = (sub = [])"
| "includesStr (c # cs) sub = (prefix sub (c # cs) \<or> includesStr cs sub)"







subsection \<open>Occurrence up to case\<close>

text \<open>
  What it means for a text to occur in another one case-insensitively, independently of
  \<open>toLowerCase\<close>: two characters are the same letter when they are equal or one is the
  capital form of the other. The capital letters of Latin-1 are A to Z and U+00C0 to U+00DE
  without the multiplication sign; the small form of a capital letter is 32 code points
  above it. \<open>occursIgnoringCase q s\<close> holds when, at some position of \<open>s\<close>, the
  characters of \<open>q\<close> follow one by one, each up to case.
\<close>

definition isCapital :: "char \<Rightarrow> bool" where
  "isCapital c =
     (let n = (of_char c :: nat)
      in (65 \<le> n \<and> n \<le> 90) \<or> (192 \<le> n \<and> n \<le> 214) \<or> (216 \<le> n \<and> n \<le> 222))"

definition sameLetter :: "char \<Rightarrow> char \<Rightarrow> bool" where
  "sameLetter a b =
     (a = b \<or>
      (isCapital a \<and> (of_char b :: nat) = of_char a + 32) \<or>
      (isCapital b \<and> (of_char a :: nat) = of_char b + 32))"

fun occursIgnoringCase :: "string \<Rightarrow> string \<Rightarrow> bool" where
  "occursIgnoringCase q [] = (q = [])"
| "occursIgnoringCase q (c # cs) =
     (list_all2 sameLetter q (take (length q) (c # cs)) \<or> occursIgnoringCase q cs)"

subsection \<open>Grouping by category\<close>

text \<open>
  The result object is the map from its own property keys to their values; the order in
  which \<open>Object.entries\<close> lists the keys is not part of the model. It is an ordinary
  object, so a key that is not an own property may still be found on \<open>Object.prototype\<close>;
  what is found there is truthy and has no \<open>push\<close>, and the call raises a TypeError. A
  category whose identifier is \<open>__proto__\<close> is outside the model (the assignment would
  replace the prototype of the result object).
\<close>

type_synonym buckets = "string \<rightharpoonup> task list"

datatype jsError = TypeError

definition objectPrototypeKeys :: "string list" where
  "objectPrototypeKeys =
     [''constructor'', ''hasOwnProperty'', ''isPrototypeOf'', ''propertyIsEnumerable'',
      ''toLocaleString'', ''toString'', ''valueOf'', ''__proto__'', ''__defineGetter__'',
      ''__defineSetter__'', ''__lookupGetter__'', ''__lookupSetter__'']"

text \<open>\<open>task.categoryId || 'none'\<close>\<close>

definition categoryKey :: "task \<Rightarrow> string" where
  "categoryKey t =
     (case categoryId t of None \<Rightarrow> ''none'' | Some c \<Rightarrow> if c = [] then ''none'' else c)"

text \<open>\<open>categories.forEach(cat => { result[cat.id] = []; })\<close> on \<open>{ 'none': [] }\<close>\<close>

definition emptyBuckets :: "category list \<Rightarrow> buckets" where
  "emptyBuckets cats = foldl (\<lambda>result cat. result(cat_id cat \<mapsto> [])) [''none'' \<mapsto> []] cats"

text \<open>
  \<open>if (!result[categoryId]) { result[categoryId] = []; } result[categoryId].push(task)\<close>:
  an own property holds an array, which is truthy also when it is empty.
\<close>

definition pushTask :: "buckets \<Rightarrow> task \<Rightarrow> jsError + buckets" where
  "pushTask result t =
     (let k = categoryKey t
      in case result k of
           Some ts \<Rightarrow> Inr (result(k \<mapsto> ts @ [t]))
         | None \<Rightarrow> if k \<in> set objectPrototypeKeys then Inl TypeError
                   else Inr (result(k \<mapsto> [t])))"

fun populate :: "buckets \<Rightarrow> task list \<Rightarrow> jsError + buckets" where
  "populate result [] = Inr result"
| "populate result (t # ts) =
     (case pushTask result t of Inl e \<Rightarrow> Inl e | Inr result' \<Rightarrow> populate result' ts)"

definition groupByCategory :: "category list \<Rightarrow> task list \<Rightarrow> jsError + buckets" where
  "groupByCategory cats filtered = populate (emptyBuckets cats) filtered"

subsection \<open>Grouping by date\<close>

text \<open>
  Local time is taken at a fixed offset \<open>tz\<close> (in milliseconds) from UTC, so every local day
  has \<open>msPerDay\<close> milliseconds: \<open>setHours(0, 0, 0, 0)\<close> goes back to the last local midnight
  and \<open>setDate(getDate() + 1)\<close> on a midnight adds one day. On an invalid date both leave NaN.
  Days on which the zone changes its offset, and midnights that fall outside the range of
  time values of \<open>Date\<close>, are outside the model.
\<close>

definition msPerDay :: int where
  "msPerDay = 86400000"

definition startOfDay :: "int \<Rightarrow> int \<Rightarrow> int" where
  "startOfDay tz t = t - (t + tz) mod msPerDay"

fun setHours0 :: "int \<Rightarrow> jsDate \<Rightarrow> jsDate" where
  "setHours0 tz (Date t) = Date (startOfDay tz t)"
| "setHours0 tz InvalidDate = InvalidDate"

text \<open>\<open>d < today\<close> and \<open>d.getTime() === n\<close> for a number \<open>n\<close>: both are false on NaN.\<close>

fun dateBefore :: "jsDate \<Rightarrow> int \<Rightarrow> bool" where
  "dateBefore (Date t) n = (t < n)"
| "dateBefore InvalidDate n = False"

fun getTimeIs :: "jsDate \<Rightarrow> int \<Rightarrow> bool" where
  "getTimeIs (Date t) n = (t = n)"
| "getTimeIs InvalidDate n = False"

text \<open>The number of the local day that contains the time value \<open>t\<close>.\<close>

definition dayNumber :: "int \<Rightarrow> int \<Rightarrow> int" where
  "dayNumber tz t = (t + tz) div msPerDay"

record dateBuckets =
  b_overdue :: "task list"
  b_today :: "task list"
  b_tomorrow :: "task list"
  b_upcoming :: "task list"
  b_no_date :: "task list"

definition emptyDateBuckets :: dateBuckets where
  "emptyDateBuckets =
     \<lparr> b_overdue = [], b_today = [], b_tomorrow = [], b_upcoming = [], b_no_date = [] \<rparr>"

definition placeByDate :: "int \<Rightarrow> int \<Rightarrow> int \<Rightarrow> dateBuckets \<Rightarrow> task \<Rightarrow> dateBuckets" where
  "placeByDate tz today tomorrow result t =
     (case dueDate t of
        None \<Rightarrow> result\<lparr>b_no_date := b_no_date result @ [t]\<rparr>
      | Some d \<Rightarrow>
          (let due = setHours0 tz d
           in if dateBefore due today \<and> status t \<noteq> Completed
              then result\<lparr>b_overdue := b_overdue result @ [t]\<rparr>
              else if getTimeIs due today
              then result\<lparr>b_today := b_today result @ [t]\<rparr>
              else if getTimeIs due tomorrow
              then result\<lparr>b_tomorrow := b_tomorrow result @ [t]\<rparr>
              else result\<lparr>b_upcoming := b_upcoming result @ [t]\<rparr>))"

text \<open>\<open>now\<close> is the reading of the clock (\<open>new Date()\<close>) when the groups are computed.\<close>

definition groupByDate :: "int \<Rightarrow> int \<Rightarrow> task list \<Rightarrow> dateBuckets" where
  "groupByDate tz now filtered =
     (let today = startOfDay tz now;
          tomorrow = today + msPerDay
      in foldl (placeByDate tz today tomorrow) emptyDateBuckets filtered)"

section \<open>Persistent store adapter (the effects of TaskProvider)\<close>

text \<open>
  \<open>JSON.parse (JSON.stringify tasks)\<close> is modelled by the JSON value that the stored text
  denotes: a property whose value is \<open>undefined\<close> is left out, strings and the priority
  and status literals are kept, and a \<open>Date\<close> is replaced by the result of its \<open>toJSON\<close>,
  the ISO string of a valid date and \<open>null\<close> for an invalid one. The platform's
  \<open>Date.prototype.toISOString\<close> and its parser of date strings are parameters
  (\<open>toISOString\<close>, \<open>parseDate\<close>).
\<close>

datatype jsonDate = JsonNull | JsonString string

record storedTask =
  s_id :: string
  s_title :: string
  s_description :: "string option"
  s_createdAt :: jsonDate
  s_updatedAt :: jsonDate
  s_dueDate :: "jsonDate option"
  s_priority :: priority
  s_status :: status
  s_categoryId :: "string option"

fun toJSON :: "(int \<Rightarrow> string) \<Rightarrow> jsDate \<Rightarrow> jsonDate" where
  "toJSON toISOString (Date t) = JsonString (toISOString t)"
| "toJSON toISOString InvalidDate = JsonNull"

definition stringifyTask :: "(int \<Rightarrow> string) \<Rightarrow> task \<Rightarrow> storedTask" where
  "stringifyTask toISOString t =
     \<lparr> s_id = task_id t, s_title = title t, s_description = description t,
       s_createdAt = toJSON toISOString (createdAt t),
       s_updatedAt = toJSON toISOString (updatedAt t),
       s_dueDate = map_option (toJSON toISOString) (dueDate t),
       s_priority = priority t, s_status = status t, s_categoryId = categoryId t \<rparr>"

text \<open>\<open>new Date(v)\<close> for a parsed value: \<open>new Date(null)\<close> is the epoch.\<close>

fun newDate :: "(string \<Rightarrow> jsDate) \<Rightarrow> jsonDate \<Rightarrow> jsDate" where
  "newDate parseDate JsonNull = Date 0"
| "newDate parseDate (JsonString str) = parseDate str"

text \<open>\<open>task.dueDate ? new Date(task.dueDate) : undefined\<close>: \<open>null\<close> and the empty string are falsy.\<close>

fun rehydrateDueDate :: "(string \<Rightarrow> jsDate) \<Rightarrow> jsonDate option \<Rightarrow> jsDate option" where
  "rehydrateDueDate parseDate None = None"
| "rehydrateDueDate parseDate (Some JsonNull) = None"
| "rehydrateDueDate parseDate (Some (JsonString str)) =
     (if str = [] then None else Some (parseDate str))"

definition rehydrate :: "(string \<Rightarrow> jsDate) \<Rightarrow> storedTask \<Rightarrow> task" where
  "rehydrate parseDate st =
     \<lparr> task_id = s_id st, title = s_title st, description = s_description st,
       createdAt = newDate parseDate (s_createdAt st),
       updatedAt = newDate parseDate (s_updatedAt st),
       dueDate = rehydrateDueDate parseDate (s_dueDate st),
       priority = s_priority st, status = s_status st, categoryId = s_categoryId st \<rparr>"

definition saveTasks :: "(int \<Rightarrow> string) \<Rightarrow> task list \<Rightarrow> storedTask list" where
  "saveTasks toISOString ts = map (stringifyTask toISOString) ts"

definition loadTasks :: "(string \<Rightarrow> jsDate) \<Rightarrow> storedTask list \<Rightarrow> task list" where
  "loadTasks parseDate parsedTasks = map (rehydrate parseDate) parsedTasks"

text \<open>The dates that a task holds.\<close>

definition datesOf :: "task \<Rightarrow> jsDate list" where
  "datesOf t = createdAt t # updatedAt t # (case dueDate t of None \<Rightarrow> [] | Some d \<Rightarrow> [d])"

section \<open>Sample data\<close>

definition taskA :: task where
  "taskA =
     \<lparr> task_id = ''a'', title = ''Buy groceries'', description = None,
       createdAt = Date 1000, updatedAt = Date 1000, dueDate = None,
       priority = Medium, status = Todo, categoryId = Some ''1'' \<rparr>"

definition taskB :: task where
  "taskB =
     \<lparr> task_id = ''b'', title = ''Pay bills'', description = Some ''Rent and power'',
       createdAt = Date 2000, updatedAt = Date 2500, dueDate = Some (Date 86400000),
       priority = High, status = Completed, categoryId = None \<rparr>"

definition catWork :: category where
  "catWork = \<lparr> cat_id = ''1'', cat_name = ''Work'', cat_color = ''#3b82f6'' \<rparr>"

definition catPersonal :: category where
  "catPersonal = \<lparr> cat_id = ''2'', cat_name = ''Personal'', cat_color = ''#10b981'' \<rparr>"

definition sampleState :: appState where
  "sampleState = \<lparr> tasks = [taskA, taskB], categories = [catWork, catPersonal] \<rparr>"

definition sampleInput :: taskInput where
  "sampleInput =
     \<lparr> i_title = ''Call the bank'', i_description = None, i_dueDate = None,
       i_priority = Low, i_status = Todo, i_categoryId = None \<rparr>"

definition taskE :: task where
  "taskE = taskB\<lparr>task_id := ''e'', categoryId := Some ''''\<rparr>"

definition taskD :: task where
  "taskD = taskA\<lparr>task_id := ''d'', categoryId := Some ''9''\<rparr>"

text \<open>The ISO strings of the time values of the sample data.\<close>

definition sampleToISOString :: "int \<Rightarrow> string" where
  "sampleToISOString n =
     (if n = 1000 then ''1970-01-01T00:00:01.000Z''
      else if n = 2000 then ''1970-01-01T00:00:02.000Z''
      else if n = 2500 then ''1970-01-01T00:00:02.500Z''
      else if n = 86400000 then ''1970-01-02T00:00:00.000Z''
      else ''1970-01-01T00:00:00.000Z'')"

definition sampleParseDate :: "string \<Rightarrow> jsDate" where
  "sampleParseDate str =
     (if str = ''1970-01-01T00:00:01.000Z'' then Date 1000
      else if str = ''1970-01-01T00:00:02.000Z'' then Date 2000
      else if str = ''1970-01-01T00:00:02.500Z'' then Date 2500
      else if str = ''1970-01-02T00:00:00.000Z'' then Date 86400000
      else if str = ''1970-01-01T00:00:00.000Z'' then Date 0
      else InvalidDate)"

definition taskF :: task where
  "taskF = taskB\<lparr>task_id := ''f'', createdAt := InvalidDate, dueDate := Some InvalidDate\<rparr>"

definition sampleClock :: "nat \<Rightarrow> int" where
  "sampleClock k = 4000 + int k"

definition threeTasks :: appState where
  "threeTasks = \<lparr> tasks = [taskA, taskB, taskD], categories = [catWork] \<rparr>"

definition emptyPatch :: taskPatch where
  "emptyPatch =
     \<lparr> p_id = None, p_title = None, p_description = None, p_createdAt = None,
       p_updatedAt = None, p_dueDate = None, p_priority = None, p_status = None,
       p_categoryId = None \<rparr>"

section \<open>Basic facts about the operations\<close>

lemma length_updateTask: "length (updateTask i p clock ts) = length ts"
  by (simp add: updateTask_def)

lemma nth_updateTask:
  "k < length ts \<Longrightarrow>
   updateTask i p clock ts ! k =
     (if task_id (ts ! k) = i then applyPatch p (clock k) (ts ! k) else ts ! k)"
  by (simp add: updateTask_def nth_enumerate_eq)

lemma length_clearCategory: "length (clearCategory c ts) = length ts"
  by (simp add: clearCategory_def)

lemma nth_clearCategory:
  "k < length ts \<Longrightarrow>
   clearCategory c ts ! k =
     (if categoryId (ts ! k) = Some c then (ts ! k)\<lparr>categoryId := None\<rparr> else ts ! k)"
  by (simp add: clearCategory_def)

lemma map_task_id_clearCategory: "map task_id (clearCategory c ts) = map task_id ts"
  by (induction ts) (simp_all add: clearCategory_def)

lemma deleteTask_absent: "i \<notin> task_id ` set ts \<Longrightarrow> deleteTask i ts = ts"
  by (induction ts) (auto simp add: deleteTask_def)

lemma updateTask_absent: "i \<notin> task_id ` set ts \<Longrightarrow> updateTask i p clock ts = ts"
proof (rule nth_equalityI)
  show "length (updateTask i p clock ts) = length ts"
    by (rule length_updateTask)
next
  fix k
  assume absent: "i \<notin> task_id ` set ts" and "k < length (updateTask i p clock ts)"
  then have k: "k < length ts"
    by (simp add: length_updateTask)
  then have "task_id (ts ! k) \<noteq> i"
    using absent by (metis image_eqI nth_mem)
  with k show "updateTask i p clock ts ! k = ts ! k"
    by (simp add: nth_updateTask)
qed

lemma perform_toast: "\<exists>msg. fst (perform op s) = ToastSuccess msg"
  by (cases op) simp_all

lemma map_task_id_addTask:
  "map task_id (addTask inp uuid c1 c2 ts) = map task_id ts @ [uuid]"
  by (simp add: addTask_def newTask_def)

lemma task_id_applyPatch:
  "p_id p = None \<or> p_id p = Some (task_id t) \<Longrightarrow> task_id (applyPatch p now t) = task_id t"
  by (auto simp add: applyPatch_def)

lemma map_task_id_updateTask:
  assumes "p_id p = None \<or> p_id p = Some i"
  shows "map task_id (updateTask i p clock ts) = map task_id ts"
proof (rule nth_equalityI)
  show "length (map task_id (updateTask i p clock ts)) = length (map task_id ts)"
    by (simp add: length_updateTask)
next
  fix k
  assume "k < length (map task_id (updateTask i p clock ts))"
  then have k: "k < length ts"
    by (simp add: length_updateTask)
  show "map task_id (updateTask i p clock ts) ! k = map task_id ts ! k"
    using k assms by (auto simp add: length_updateTask nth_updateTask task_id_applyPatch)
qed

lemma map_task_id_deleteTask:
  "map task_id (deleteTask i ts) = filter (\<lambda>x. x \<noteq> i) (map task_id ts)"
  by (simp add: deleteTask_def filter_map comp_def)

lemma taskIds_perform:
  "admissible op s \<Longrightarrow>
   taskIds (snd (perform op s)) =
     (case op of
        AddTask inp uuid c1 c2 \<Rightarrow> taskIds s @ [uuid]
      | DeleteTask i \<Rightarrow> filter (\<lambda>x. x \<noteq> i) (taskIds s)
      | _ \<Rightarrow> taskIds s)"
  by (cases op)
     (simp_all add: taskIds_def map_task_id_addTask map_task_id_updateTask
        map_task_id_deleteTask deleteCategory_def map_task_id_clearCategory)

lemma distinct_perform:
  "admissible op s \<Longrightarrow> distinct (taskIds s) \<Longrightarrow> distinct (taskIds (snd (perform op s)))"
  unfolding taskIds_perform by (cases op) simp_all

lemma distinct_run:
  "distinct (taskIds s) \<Longrightarrow> admissibleRun ops s \<Longrightarrow> distinct (taskIds (run ops s))"
  by (induction ops arbitrary: s) (simp_all add: distinct_perform)

lemma precedes_members: "precedes a b xs \<Longrightarrow> a \<in> set xs \<and> b \<in> set xs"
  by (induction xs) auto

lemma precedes_append: "precedes a b xs \<Longrightarrow> precedes a b (xs @ ys)"
  by (induction xs) auto

lemma precedes_filter: "precedes a b xs \<Longrightarrow> P a \<Longrightarrow> P b \<Longrightarrow> precedes a b (filter P xs)"
  by (induction xs) auto

lemma precedes_antisym: "distinct xs \<Longrightarrow> precedes a b xs \<Longrightarrow> \<not> precedes b a xs"
  by (induction xs) (auto dest: precedes_members)

lemma precedes_perform:
  assumes "admissible op s" and "precedes a b (taskIds s)"
    and "a \<in> set (taskIds (snd (perform op s)))" and "b \<in> set (taskIds (snd (perform op s)))"
  shows "precedes a b (taskIds (snd (perform op s)))"
  using assms unfolding taskIds_perform [OF assms(1)]
  by (cases op) (simp_all add: precedes_append precedes_filter)

lemma presentThroughout_now: "presentThroughout a ops s \<Longrightarrow> a \<in> set (taskIds s)"
  by (cases ops) simp_all

lemma precedes_run:
  "admissibleRun ops s \<Longrightarrow> precedes a b (taskIds s) \<Longrightarrow>
   presentThroughout a ops s \<Longrightarrow> presentThroughout b ops s \<Longrightarrow>
   precedes a b (taskIds (run ops s))"
proof (induction ops arbitrary: s)
  case Nil
  then show ?case by simp
next
  case (Cons op ops)
  let ?s' = "snd (perform op s)"
  have "precedes a b (taskIds ?s')"
    using Cons.prems by (intro precedes_perform) (auto dest: presentThroughout_now)
  with Cons show ?case by simp
qed

section \<open>Deleting a category\<close>

text \<open>
  Claim C1. Deleting the category \<open>c\<close> keeps the number and the positions of the tasks;
  a task whose \<open>categoryId\<close> is \<open>c\<close> becomes the same task with \<open>categoryId\<close> undefined
  (all its other fields are kept), every other task is left as it is; and the category
  collection keeps, in their order, exactly the categories whose identifier is not \<open>c\<close>.
\<close>

theorem deleteCategory_effect:
  "length (tasks (deleteCategory c s)) = length (tasks s) \<and>
   (\<forall>k < length (tasks s).
      tasks (deleteCategory c s) ! k =
        (if categoryId (tasks s ! k) = Some c
         then (tasks s ! k)\<lparr>categoryId := None\<rparr>
         else tasks s ! k)) \<and>
   categories (deleteCategory c s) = filter (\<lambda>x. cat_id x \<noteq> c) (categories s) \<and>
   set (categories (deleteCategory c s)) = {x \<in> set (categories s). cat_id x \<noteq> c}"
  by (simp add: deleteCategory_def length_clearCategory nth_clearCategory)

theorem deleteCategory_effect_witness:
  "length (tasks (deleteCategory ''1'' sampleState)) = 2 \<and>
   tasks (deleteCategory ''1'' sampleState) ! 0 = taskA\<lparr>categoryId := None\<rparr> \<and>
   tasks (deleteCategory ''1'' sampleState) ! 1 = taskB \<and>
   categories (deleteCategory ''1'' sampleState) = [catPersonal]"
  using deleteCategory_effect [of "''1''" sampleState]
  by (simp add: sampleState_def taskA_def taskB_def catWork_def catPersonal_def)

section \<open>Operations on an absent identifier\<close>

text \<open>
  Claim C8. When no task has the identifier \<open>i\<close>, deleting the task \<open>i\<close> and updating
  the task \<open>i\<close> with any patch leave the state as it is. No operation has an error
  result: every operation returns a state and ends with a success notification.
\<close>

theorem absent_id_tolerated:
  "i \<notin> task_id ` set (tasks s) \<Longrightarrow>
     deleteTask i (tasks s) = tasks s \<and>
     updateTask i p clock (tasks s) = tasks s \<and>
     snd (perform (DeleteTask i) s) = s \<and>
     snd (perform (UpdateTask i p clock) s) = s \<and>
     (\<forall>op s'. \<exists>msg. fst (perform op s') = ToastSuccess msg)"
  by (simp add: deleteTask_absent updateTask_absent perform_toast)

theorem absent_id_tolerated_witness:
  "''z'' \<notin> task_id ` set (tasks sampleState) \<and>
   deleteTask ''z'' (tasks sampleState) = tasks sampleState \<and>
   updateTask ''z'' (emptyPatch\<lparr>p_title := Some ''New''\<rparr>) sampleClock (tasks sampleState)
     = tasks sampleState"
proof -
  have absent: "''z'' \<notin> task_id ` set (tasks sampleState)"
    by (simp add: sampleState_def taskA_def taskB_def)
  show ?thesis
    using absent absent_id_tolerated [OF absent, of "emptyPatch\<lparr>p_title := Some ''New''\<rparr>" sampleClock]
    by simp
qed

section \<open>Updating a task\<close>

text \<open>
  Claim C2, as amended. Updating the task \<open>i\<close> keeps the length of the collection and
  every list position. A task with another identifier is unchanged. A task with
  identifier \<open>i\<close> takes the patched value of every field that the patch mentions, the
  identifier included, keeps every field that the patch does not mention, and has
  \<open>updatedAt\<close> set to the time of the update whether or not the patch mentions it. So the
  task keeps its identifier when the patch does not mention \<open>id\<close>.
\<close>

theorem updateTask_frame:
  "length (updateTask i p clock ts) = length ts \<and>
   (\<forall>k < length ts.
      (task_id (ts ! k) \<noteq> i \<longrightarrow> updateTask i p clock ts ! k = ts ! k) \<and>
      (task_id (ts ! k) = i \<longrightarrow>
         task_id (updateTask i p clock ts ! k) = (case p_id p of None \<Rightarrow> i | Some v \<Rightarrow> v) \<and>
         title (updateTask i p clock ts ! k) =
           (case p_title p of None \<Rightarrow> title (ts ! k) | Some v \<Rightarrow> v) \<and>
         description (updateTask i p clock ts ! k) =
           (case p_description p of None \<Rightarrow> description (ts ! k) | Some v \<Rightarrow> v) \<and>
         createdAt (updateTask i p clock ts ! k) =
           (case p_createdAt p of None \<Rightarrow> createdAt (ts ! k) | Some v \<Rightarrow> v) \<and>
         dueDate (updateTask i p clock ts ! k) =
           (case p_dueDate p of None \<Rightarrow> dueDate (ts ! k) | Some v \<Rightarrow> v) \<and>
         priority (updateTask i p clock ts ! k) =
           (case p_priority p of None \<Rightarrow> priority (ts ! k) | Some v \<Rightarrow> v) \<and>
         status (updateTask i p clock ts ! k) =
           (case p_status p of None \<Rightarrow> status (ts ! k) | Some v \<Rightarrow> v) \<and>
         categoryId (updateTask i p clock ts ! k) =
           (case p_categoryId p of None \<Rightarrow> categoryId (ts ! k) | Some v \<Rightarrow> v) \<and>
         updatedAt (updateTask i p clock ts ! k) = Date (clock k)))"
  by (auto simp add: length_updateTask nth_updateTask applyPatch_def)

theorem updateTask_frame_witness:
  "updateTask ''a'' (emptyPatch\<lparr>p_status := Some Completed\<rparr>) sampleClock [taskA, taskB] ! 1 = taskB \<and>
   task_id (updateTask ''a'' (emptyPatch\<lparr>p_status := Some Completed\<rparr>) sampleClock [taskA, taskB] ! 0) = ''a'' \<and>
   title (updateTask ''a'' (emptyPatch\<lparr>p_status := Some Completed\<rparr>) sampleClock [taskA, taskB] ! 0) = ''Buy groceries'' \<and>
   status (updateTask ''a'' (emptyPatch\<lparr>p_status := Some Completed\<rparr>) sampleClock [taskA, taskB] ! 0) = Completed \<and>
   createdAt (updateTask ''a'' (emptyPatch\<lparr>p_status := Some Completed\<rparr>) sampleClock [taskA, taskB] ! 0) = Date 1000 \<and>
   updatedAt (updateTask ''a'' (emptyPatch\<lparr>p_status := Some Completed\<rparr>) sampleClock [taskA, taskB] ! 0) = Date 4000"
  using updateTask_frame [of "''a''" "emptyPatch\<lparr>p_status := Some Completed\<rparr>" sampleClock "[taskA, taskB]"]
  by (simp add: updateTask_def applyPatch_def emptyPatch_def taskA_def taskB_def sampleClock_def)

text \<open>A patch that mentions \<open>id\<close> gives the task another identifier.\<close>

theorem updateTask_keeps_id_counterexample:
  "task_id ([taskA] ! 0) = ''a'' \<and>
   task_id (updateTask ''a'' (emptyPatch\<lparr>p_id := Some ''b''\<rparr>) sampleClock [taskA] ! 0) \<noteq> ''a''"
  by (simp add: updateTask_def applyPatch_def emptyPatch_def taskA_def)

section \<open>Adding a task\<close>

text \<open>
  Claim C6, as amended. Adding a task appends exactly one task to the collection. Its
  fields are those of the input, its identifier is the one the generator returned, and
  its two timestamps are the two readings of the clock, in order. The identifier differs
  from every identifier of the collection exactly when the generator returned one that
  is not in the collection, and the timestamps are equal exactly when the two readings are.
\<close>

theorem addTask_effect:
  "length (addTask inp uuid c1 c2 ts) = Suc (length ts) \<and>
   butlast (addTask inp uuid c1 c2 ts) = ts \<and>
   task_id (last (addTask inp uuid c1 c2 ts)) = uuid \<and>
   createdAt (last (addTask inp uuid c1 c2 ts)) = Date c1 \<and>
   updatedAt (last (addTask inp uuid c1 c2 ts)) = Date c2 \<and>
   title (last (addTask inp uuid c1 c2 ts)) = i_title inp \<and>
   description (last (addTask inp uuid c1 c2 ts)) = i_description inp \<and>
   dueDate (last (addTask inp uuid c1 c2 ts)) = i_dueDate inp \<and>
   priority (last (addTask inp uuid c1 c2 ts)) = i_priority inp \<and>
   status (last (addTask inp uuid c1 c2 ts)) = i_status inp \<and>
   categoryId (last (addTask inp uuid c1 c2 ts)) = i_categoryId inp \<and>
   ((\<forall>t \<in> set ts. task_id t \<noteq> task_id (last (addTask inp uuid c1 c2 ts)))
      \<longleftrightarrow> uuid \<notin> task_id ` set ts) \<and>
   (createdAt (last (addTask inp uuid c1 c2 ts)) = updatedAt (last (addTask inp uuid c1 c2 ts))
      \<longleftrightarrow> c1 = c2)"
  by (auto simp add: addTask_def newTask_def)

theorem addTask_effect_witness:
  "butlast (addTask sampleInput ''c'' 3000 3000 [taskA, taskB]) = [taskA, taskB] \<and>
   task_id (last (addTask sampleInput ''c'' 3000 3000 [taskA, taskB])) = ''c'' \<and>
   task_id taskA \<noteq> task_id (last (addTask sampleInput ''c'' 3000 3000 [taskA, taskB])) \<and>
   task_id taskB \<noteq> task_id (last (addTask sampleInput ''c'' 3000 3000 [taskA, taskB])) \<and>
   createdAt (last (addTask sampleInput ''c'' 3000 3000 [taskA, taskB]))
     = updatedAt (last (addTask sampleInput ''c'' 3000 3000 [taskA, taskB]))"
  using addTask_effect [of sampleInput "''c''" 3000 3000 "[taskA, taskB]"]
  by (simp add: taskA_def taskB_def)

text \<open>The clock may advance between the two readings.\<close>

theorem addTask_timestamps_counterexample:
  "createdAt (last (addTask sampleInput ''c'' 3000 3001 [taskA, taskB]))
     \<noteq> updatedAt (last (addTask sampleInput ''c'' 3000 3001 [taskA, taskB]))"
  by (simp add: addTask_def newTask_def)

section \<open>Uniqueness of task identifiers\<close>

text \<open>
  Claim C7, as amended. Assume that the identifier generator returns, at each addition,
  an identifier that no task of the collection has, and that no patch gives a task an
  identifier other than its own. Then every state reached from a state with pairwise
  distinct task identifiers by a sequence of operations (adding, updating and deleting
  tasks and categories) has pairwise distinct task identifiers.
\<close>

theorem task_ids_stay_distinct:
  "distinct (taskIds s) \<Longrightarrow> admissibleRun ops s \<Longrightarrow> distinct (taskIds (run ops s))"
  by (rule distinct_run)

theorem task_ids_stay_distinct_witness:
  "distinct (taskIds sampleState) \<and>
   admissibleRun
     [AddTask sampleInput ''c'' 3000 3000,
      UpdateTask ''a'' (emptyPatch\<lparr>p_status := Some Completed\<rparr>) sampleClock,
      DeleteTask ''b'', DeleteCategory ''1''] sampleState \<and>
   distinct (taskIds (run
     [AddTask sampleInput ''c'' 3000 3000,
      UpdateTask ''a'' (emptyPatch\<lparr>p_status := Some Completed\<rparr>) sampleClock,
      DeleteTask ''b'', DeleteCategory ''1''] sampleState))"
proof -
  have d: "distinct (taskIds sampleState)"
    by (simp add: taskIds_def sampleState_def taskA_def taskB_def)
  have a: "admissibleRun
     [AddTask sampleInput ''c'' 3000 3000,
      UpdateTask ''a'' (emptyPatch\<lparr>p_status := Some Completed\<rparr>) sampleClock,
      DeleteTask ''b'', DeleteCategory ''1''] sampleState"
    by (simp add: taskIds_def sampleState_def taskA_def taskB_def emptyPatch_def
        addTask_def newTask_def)
  from d a task_ids_stay_distinct [OF d a] show ?thesis
    by simp
qed

text \<open>A patch that mentions \<open>id\<close> can give a task the identifier of another task.\<close>

theorem update_id_collision_counterexample:
  "distinct (map task_id [taskA, taskB]) \<and>
   \<not> distinct (map task_id
         (updateTask ''a'' (emptyPatch\<lparr>p_id := Some ''b''\<rparr>) sampleClock [taskA, taskB]))"
  by (simp add: updateTask_def applyPatch_def emptyPatch_def taskA_def taskB_def)

section \<open>Order of the tasks\<close>

lemma filter_take_less:
  assumes "P (ts ! j)" and "j < k" and "k \<le> length ts"
  shows "length (filter P (take j ts)) < length (filter P (take k ts))"
proof -
  have "take k ts = take (Suc j) (take k ts) @ drop (Suc j) (take k ts)"
    by (rule append_take_drop_id [symmetric])
  also have "take (Suc j) (take k ts) = take j ts @ [ts ! j]"
    using assms by (simp add: min_absorb1 take_Suc_conv_app_nth)
  finally have "take k ts = take j ts @ [ts ! j] @ drop (Suc j) (take k ts)"
    by simp
  then have "filter P (take k ts)
      = filter P (take j ts) @ ts ! j # filter P (drop (Suc j) (take k ts))"
    using assms(1) by (metis append_Cons append_Nil filter.simps(2) filter_append)
  then show ?thesis
    by simp
qed

lemma filter_nth_kept:
  assumes "P (ts ! k)" and "k < length ts"
  shows "length (filter P (take k ts)) < length (filter P ts)"
    and "filter P ts ! length (filter P (take k ts)) = ts ! k"
proof -
  have "ts = take k ts @ ts ! k # drop (Suc k) ts"
    using assms(2) by (rule id_take_nth_drop)
  then have "filter P ts = filter P (take k ts) @ ts ! k # filter P (drop (Suc k) ts)"
    using assms(1) by (metis filter.simps(2) filter_append)
  then show "length (filter P (take k ts)) < length (filter P ts)"
    and "filter P ts ! length (filter P (take k ts)) = ts ! k"
    by simp_all
qed

lemma positionAfter_None:
  "positionAfter op s k = None \<longleftrightarrow> (\<exists>i. op = DeleteTask i \<and> task_id (tasks s ! k) = i)"
  by (cases op) (simp_all add: positionAfter_def)

lemma positionAfter_Some:
  assumes "k < length (tasks s)" and "positionAfter op s k = Some k'"
  shows "k' < length (tasks (snd (perform op s)))"
    and "tasks (snd (perform op s)) ! k' = taskAfter op k (tasks s ! k)"
proof -
  have "k' < length (tasks (snd (perform op s))) \<and>
      tasks (snd (perform op s)) ! k' = taskAfter op k (tasks s ! k)"
  proof (cases op)
    case (AddTask inp uuid c1 c2)
    with assms show ?thesis
      by (simp add: positionAfter_def taskAfter_def addTask_def nth_append)
  next
    case (UpdateTask i p clock)
    with assms show ?thesis
      by (auto simp add: positionAfter_def taskAfter_def length_updateTask nth_updateTask)
  next
    case (DeleteTask i)
    with assms have kept: "task_id (tasks s ! k) \<noteq> i"
      and k': "k' = length (filter (\<lambda>t. task_id t \<noteq> i) (take k (tasks s)))"
      by (auto simp add: positionAfter_def deleteTask_def split: if_splits)
    from filter_nth_kept [of "\<lambda>t. task_id t \<noteq> i" "tasks s" k, OF kept assms(1)]
    show ?thesis
      by (simp add: DeleteTask k' taskAfter_def deleteTask_def)
  next
    case (AddCategory inp uuid)
    with assms show ?thesis
      by (simp add: positionAfter_def taskAfter_def)
  next
    case (UpdateCategory i p)
    with assms show ?thesis
      by (simp add: positionAfter_def taskAfter_def)
  next
    case (DeleteCategory c)
    with assms show ?thesis
      by (auto simp add: positionAfter_def taskAfter_def deleteCategory_def
          length_clearCategory nth_clearCategory)
  qed
  then show "k' < length (tasks (snd (perform op s)))"
    and "tasks (snd (perform op s)) ! k' = taskAfter op k (tasks s ! k)"
    by simp_all
qed

lemma positionAfter_mono:
  assumes "j < k" and "k < length (tasks s)"
    and "positionAfter op s j = Some j'" and "positionAfter op s k = Some k'"
  shows "j' < k'"
proof (cases "\<exists>i. op = DeleteTask i")
  case True
  then obtain i where op: "op = DeleteTask i"
    by blast
  with assms have kept: "task_id (tasks s ! j) \<noteq> i"
    and j': "j' = length (filter (\<lambda>t. task_id t \<noteq> i) (take j (tasks s)))"
    and k': "k' = length (filter (\<lambda>t. task_id t \<noteq> i) (take k (tasks s)))"
    by (auto simp add: positionAfter_def deleteTask_def split: if_splits)
  from filter_take_less [of "\<lambda>t. task_id t \<noteq> i" "tasks s" j k] kept assms(1,2)
  show ?thesis
    by (simp add: j' k')
next
  case False
  with assms(3,4) have "j' = j" "k' = k"
    by (cases op; simp add: positionAfter_def)+
  with assms(1) show ?thesis
    by simp
qed

lemma track_mono:
  "j < k \<Longrightarrow> k < length (tasks s) \<Longrightarrow> track ops s j = Some j' \<Longrightarrow> track ops s k = Some k'
     \<Longrightarrow> j' < k' \<and> k' < length (tasks (run ops s))"
proof (induction ops arbitrary: s j k)
  case Nil
  then show ?case by simp
next
  case (Cons op ops)
  from Cons.prems(3) obtain j1 where j1: "positionAfter op s j = Some j1"
    "track ops (snd (perform op s)) j1 = Some j'"
    by (auto split: option.splits)
  from Cons.prems(4) obtain k1 where k1: "positionAfter op s k = Some k1"
    "track ops (snd (perform op s)) k1 = Some k'"
    by (auto split: option.splits)
  have "j1 < k1"
    using Cons.prems(1,2) j1(1) k1(1) by (rule positionAfter_mono)
  moreover have "k1 < length (tasks (snd (perform op s)))"
    using Cons.prems(2) k1(1) by (rule positionAfter_Some(1))
  ultimately show ?case
    using Cons.IH j1(2) k1(2) by simp
qed

text \<open>
  The same in terms of identifiers, for sequences of operations under which identifiers
  identify the tasks: the identifiers are pairwise distinct at the start, every added
  identifier is new, and no patch changes an identifier.
\<close>

lemma order_by_identifier:
  assumes "distinct (taskIds s)" and "admissibleRun ops s"
    and "presentThroughout a ops s" and "presentThroughout b ops s"
    and "precedes a b (taskIds s)"
  shows "precedes a b (taskIds (run ops s)) \<and> \<not> precedes b a (taskIds (run ops s))"
proof -
  have "precedes a b (taskIds (run ops s))"
    using assms by (simp add: precedes_run)
  moreover have "distinct (taskIds (run ops s))"
    using assms by (simp add: distinct_run)
  ultimately show ?thesis
    by (simp add: precedes_antisym)
qed

text \<open>
  Claim C10. Adding a task puts the new task after all the tasks of the collection.
  Updating a task and clearing a category keep every task at its list position, and
  deleting a task leaves a subsequence of the collection. Each operation takes the task at
  a position \<open>k\<close> to the position \<open>positionAfter op s k\<close>, where it is the same task but
  for the fields that the operation sets, and removes it only when it is a deletion of that
  task's identifier. Consequently, for two tasks of which the first is before the second:
  after any sequence of operations that removes neither of them, the first is still before
  the second. This holds from every state, hence also for the tasks added on the way.
\<close>

theorem order_preserved:
  "butlast (addTask inp uuid c1 c2 ts) = ts \<and>
   last (addTask inp uuid c1 c2 ts) = newTask inp uuid c1 c2 \<and>
   length (updateTask i p clock ts) = length ts \<and>
   (\<forall>k < length ts.
      updateTask i p clock ts ! k = ts ! k \<or>
      updateTask i p clock ts ! k = applyPatch p (clock k) (ts ! k)) \<and>
   subseq (deleteTask i ts) ts \<and>
   length (clearCategory c ts) = length ts \<and>
   (\<forall>k < length ts.
      clearCategory c ts ! k = ts ! k \<or>
      clearCategory c ts ! k = (ts ! k)\<lparr>categoryId := None\<rparr>) \<and>
   (\<forall>k < length (tasks s).
      (positionAfter op s k = None
         \<longleftrightarrow> (\<exists>d. op = DeleteTask d \<and> task_id (tasks s ! k) = d)) \<and>
      (\<forall>k'. positionAfter op s k = Some k' \<longrightarrow>
         k' < length (tasks (snd (perform op s))) \<and>
         tasks (snd (perform op s)) ! k' = taskAfter op k (tasks s ! k))) \<and>
   (\<forall>j k j' k'.
      j < k \<and> k < length (tasks s) \<and> track ops s j = Some j' \<and> track ops s k = Some k'
        \<longrightarrow> j' < k' \<and> k' < length (tasks (run ops s)))"
proof -
  have add: "butlast (addTask inp uuid c1 c2 ts) = ts \<and>
      last (addTask inp uuid c1 c2 ts) = newTask inp uuid c1 c2"
    by (simp add: addTask_def)
  have upd: "\<forall>k < length ts.
      updateTask i p clock ts ! k = ts ! k \<or>
      updateTask i p clock ts ! k = applyPatch p (clock k) (ts ! k)"
    by (simp add: nth_updateTask)
  have del: "subseq (deleteTask i ts) ts"
    by (simp add: deleteTask_def)
  have clr: "\<forall>k < length ts.
      clearCategory c ts ! k = ts ! k \<or>
      clearCategory c ts ! k = (ts ! k)\<lparr>categoryId := None\<rparr>"
    by (simp add: nth_clearCategory)
  have pos: "\<forall>k < length (tasks s).
      (positionAfter op s k = None
         \<longleftrightarrow> (\<exists>d. op = DeleteTask d \<and> task_id (tasks s ! k) = d)) \<and>
      (\<forall>k'. positionAfter op s k = Some k' \<longrightarrow>
         k' < length (tasks (snd (perform op s))) \<and>
         tasks (snd (perform op s)) ! k' = taskAfter op k (tasks s ! k))"
  proof (intro allI impI conjI)
    fix k
    show "positionAfter op s k = None
        \<longleftrightarrow> (\<exists>d. op = DeleteTask d \<and> task_id (tasks s ! k) = d)"
      by (rule positionAfter_None)
  next
    fix k k'
    assume "k < length (tasks s)" and "positionAfter op s k = Some k'"
    then show "k' < length (tasks (snd (perform op s)))"
      and "tasks (snd (perform op s)) ! k' = taskAfter op k (tasks s ! k)"
      by (rule positionAfter_Some)+
  qed
  have runs: "\<forall>j k j' k'.
      j < k \<and> k < length (tasks s) \<and> track ops s j = Some j' \<and> track ops s k = Some k'
        \<longrightarrow> j' < k' \<and> k' < length (tasks (run ops s))"
  proof (intro allI impI)
    fix j k j' k'
    assume "j < k \<and> k < length (tasks s) \<and> track ops s j = Some j' \<and> track ops s k = Some k'"
    then have "j < k" "k < length (tasks s)" "track ops s j = Some j'" "track ops s k = Some k'"
      by simp_all
    then show "j' < k' \<and> k' < length (tasks (run ops s))"
      by (rule track_mono)
  qed
  have lu: "length (updateTask i p clock ts) = length ts"
    by (rule length_updateTask)
  have lc: "length (clearCategory c ts) = length ts"
    by (rule length_clearCategory)
  show ?thesis
    by (intro conjI add [THEN conjunct1] add [THEN conjunct2] lu upd del lc clr pos runs)
qed

text \<open>
  From the tasks \<open>a\<close>, \<open>b\<close>, \<open>d\<close>: a task is added, the task \<open>a\<close> is deleted, the
  task \<open>d\<close> is given the identifier \<open>b\<close>, and the category \<open>1\<close> is deleted. The task
  \<open>a\<close> is removed; the tasks \<open>b\<close> and \<open>d\<close> move one position forward and keep their
  order, although they now have the same identifier.
\<close>

theorem order_preserved_witness:
  "track [AddTask sampleInput ''c'' 3000 3000, DeleteTask ''a'',
          UpdateTask ''d'' (emptyPatch\<lparr>p_id := Some ''b''\<rparr>) sampleClock,
          DeleteCategory ''1''] threeTasks 0 = None \<and>
   track [AddTask sampleInput ''c'' 3000 3000, DeleteTask ''a'',
          UpdateTask ''d'' (emptyPatch\<lparr>p_id := Some ''b''\<rparr>) sampleClock,
          DeleteCategory ''1''] threeTasks 1 = Some 0 \<and>
   track [AddTask sampleInput ''c'' 3000 3000, DeleteTask ''a'',
          UpdateTask ''d'' (emptyPatch\<lparr>p_id := Some ''b''\<rparr>) sampleClock,
          DeleteCategory ''1''] threeTasks 2 = Some 1 \<and>
   tasks (run [AddTask sampleInput ''c'' 3000 3000, DeleteTask ''a'',
          UpdateTask ''d'' (emptyPatch\<lparr>p_id := Some ''b''\<rparr>) sampleClock,
          DeleteCategory ''1''] threeTasks) ! 0 = taskB \<and>
   tasks (run [AddTask sampleInput ''c'' 3000 3000, DeleteTask ''a'',
          UpdateTask ''d'' (emptyPatch\<lparr>p_id := Some ''b''\<rparr>) sampleClock,
          DeleteCategory ''1''] threeTasks) ! 1
     = taskD\<lparr>task_id := ''b'', updatedAt := Date 4001\<rparr>"
proof -
  let ?ops = "[AddTask sampleInput ''c'' 3000 3000, DeleteTask ''a'',
          UpdateTask ''d'' (emptyPatch\<lparr>p_id := Some ''b''\<rparr>) sampleClock,
          DeleteCategory ''1'']"
  note defs = threeTasks_def taskA_def taskB_def taskD_def emptyPatch_def sampleClock_def
    positionAfter_def addTask_def newTask_def updateTask_def applyPatch_def deleteTask_def
    deleteCategory_def clearCategory_def
  have t0: "track ?ops threeTasks 0 = None"
    by (simp add: defs)
  have t1: "track ?ops threeTasks 1 = Some 0"
    by (simp add: defs)
  have t2: "track ?ops threeTasks 2 = Some 1"
    by (simp add: defs)
  have l: "(1::nat) < 2 \<and> 2 < length (tasks threeTasks)"
    by (simp add: defs)
  have r0: "tasks (run ?ops threeTasks) ! 0 = taskB"
    by (simp add: defs)
  have r1: "tasks (run ?ops threeTasks) ! 1 = taskD\<lparr>task_id := ''b'', updatedAt := Date 4001\<rparr>"
    by (simp add: defs)
  from order_preserved [where s = threeTasks and ops = ?ops] l t1 t2
  have "(0::nat) < 1 \<and> 1 < length (tasks (run ?ops threeTasks))"
    by blast
  with t0 t1 t2 r0 r1 show ?thesis
    by simp
qed

section \<open>Filtering\<close>

lemma includesStr_sublist: "includesStr s sub \<longleftrightarrow> sublist sub s"
  by (induction s) (simp_all add: sublist_Cons_right)

lemma of_char_toLowerCaseChar:
  "(of_char (toLowerCaseChar c) :: nat) = (if isCapital c then of_char c + 32 else of_char c)"
proof -
  have "(of_char c + 32) mod 256 = (of_char c :: nat) + 32" if "isCapital c"
    using that by (auto simp add: isCapital_def Let_def)
  then show ?thesis
    by (auto simp add: toLowerCaseChar_def isCapital_def Let_def)
qed

lemma lower_code_eq_iff:
  fixes n m :: nat
  shows "((if (65 \<le> n \<and> n \<le> 90) \<or> (192 \<le> n \<and> n \<le> 214) \<or> (216 \<le> n \<and> n \<le> 222)
           then n + 32 else n) =
          (if (65 \<le> m \<and> m \<le> 90) \<or> (192 \<le> m \<and> m \<le> 214) \<or> (216 \<le> m \<and> m \<le> 222)
           then m + 32 else m))
     \<longleftrightarrow> (n = m \<or>
          ((65 \<le> n \<and> n \<le> 90) \<or> (192 \<le> n \<and> n \<le> 214) \<or> (216 \<le> n \<and> n \<le> 222))
            \<and> m = n + 32 \<or>
          ((65 \<le> m \<and> m \<le> 90) \<or> (192 \<le> m \<and> m \<le> 214) \<or> (216 \<le> m \<and> m \<le> 222))
            \<and> n = m + 32)"
  by (cases "(65 \<le> n \<and> n \<le> 90) \<or> (192 \<le> n \<and> n \<le> 214) \<or> (216 \<le> n \<and> n \<le> 222)";
      cases "(65 \<le> m \<and> m \<le> 90) \<or> (192 \<le> m \<and> m \<le> 214) \<or> (216 \<le> m \<and> m \<le> 222)")
     (simp_all, linarith+)

lemma toLowerCaseChar_eq_iff: "toLowerCaseChar a = toLowerCaseChar b \<longleftrightarrow> sameLetter a b"
proof -
  have "toLowerCaseChar a = toLowerCaseChar b
      \<longleftrightarrow> (of_char (toLowerCaseChar a) :: nat) = of_char (toLowerCaseChar b)"
    by simp
  also have "\<dots> \<longleftrightarrow> sameLetter a b"
  proof -
    have "a = b \<longleftrightarrow> (of_char a :: nat) = of_char b"
      by simp
    then show ?thesis
      unfolding of_char_toLowerCaseChar sameLetter_def isCapital_def Let_def
      by (simp only: lower_code_eq_iff)
  qed
  finally show ?thesis .
qed

lemma toLowerCase_eq_iff: "toLowerCase u = toLowerCase v \<longleftrightarrow> list_all2 sameLetter u v"
proof -
  have "map toLowerCaseChar u = map toLowerCaseChar v
      \<longleftrightarrow> list_all2 (=) (map toLowerCaseChar u) (map toLowerCaseChar v)"
    by (simp add: list.rel_eq)
  also have "\<dots> \<longleftrightarrow> list_all2 (\<lambda>x y. toLowerCaseChar x = toLowerCaseChar y) u v"
    by (simp add: list.rel_map)
  finally show ?thesis
    by (simp add: toLowerCase_def toLowerCaseChar_eq_iff)
qed

lemma prefix_take: "prefix xs ys \<longleftrightarrow> take (length xs) ys = xs"
  by (metis append_eq_conv_conj prefix_def)

lemma prefix_toLowerCase:
  "prefix (toLowerCase q) (toLowerCase s) \<longleftrightarrow> list_all2 sameLetter q (take (length q) s)"
proof -
  have "prefix (toLowerCase q) (toLowerCase s)
      \<longleftrightarrow> toLowerCase (take (length q) s) = toLowerCase q"
    by (simp add: prefix_take toLowerCase_def take_map)
  then show ?thesis
    by (metis toLowerCase_eq_iff)
qed

lemma includesStr_toLowerCase:
  "includesStr (toLowerCase s) (toLowerCase q) \<longleftrightarrow> occursIgnoringCase q s"
proof (induction s)
  case Nil
  then show ?case
    by (simp add: toLowerCase_def)
next
  case (Cons c cs)
  have "toLowerCase (c # cs) = toLowerCaseChar c # toLowerCase cs"
    by (simp add: toLowerCase_def)
  then have "includesStr (toLowerCase (c # cs)) (toLowerCase q)
      \<longleftrightarrow> prefix (toLowerCase q) (toLowerCase (c # cs))
          \<or> includesStr (toLowerCase cs) (toLowerCase q)"
    by simp
  then show ?case
    by (simp only: prefix_toLowerCase Cons.IH occursIgnoringCase.simps)
qed

text \<open>The recursion of \<open>occursIgnoringCase\<close> finds exactly the pieces of the text.\<close>

lemma occursIgnoringCase_iff:
  "occursIgnoringCase q s \<longleftrightarrow> (\<exists>ps u ss. s = ps @ u @ ss \<and> list_all2 sameLetter q u)"
proof
  assume "occursIgnoringCase q s"
  then show "\<exists>ps u ss. s = ps @ u @ ss \<and> list_all2 sameLetter q u"
  proof (induction s)
    case Nil
    then show ?case by simp
  next
    case (Cons c cs)
    show ?case
    proof (cases "list_all2 sameLetter q (take (length q) (c # cs))")
      case True
      have "c # cs = [] @ take (length q) (c # cs) @ drop (length q) (c # cs)"
        by simp
      with True show ?thesis
        by blast
    next
      case False
      with Cons.prems have "occursIgnoringCase q cs"
        by simp
      from Cons.IH [OF this] obtain ps u ss where "cs = ps @ u @ ss" "list_all2 sameLetter q u"
        by blast
      then have "c # cs = (c # ps) @ u @ ss"
        by simp
      with \<open>list_all2 sameLetter q u\<close> show ?thesis
        by blast
    qed
  qed
next
  assume "\<exists>ps u ss. s = ps @ u @ ss \<and> list_all2 sameLetter q u"
  then obtain ps u ss where s: "s = ps @ u @ ss" and u: "list_all2 sameLetter q u"
    by blast
  from u have "toLowerCase q = toLowerCase u"
    by (simp add: toLowerCase_eq_iff)
  then have "sublist (toLowerCase q) (toLowerCase s)"
    unfolding s sublist_def by (auto simp add: toLowerCase_def)
  then show "occursIgnoringCase q s"
    by (simp add: includesStr_sublist flip: includesStr_toLowerCase)
qed





section \<open>Grouping by category\<close>

lemma emptyBuckets_fold:
  "foldl (\<lambda>result cat. result(cat_id cat \<mapsto> [])) acc cats k
     = (if k \<in> cat_id ` set cats then Some [] else acc k)"
  by (induction cats arbitrary: acc) auto

lemma emptyBuckets_apply:
  "emptyBuckets cats k = (if k = ''none'' \<or> k \<in> cat_id ` set cats then Some [] else None)"
  by (simp add: emptyBuckets_def emptyBuckets_fold)

lemma pushTask_update:
  assumes "categoryKey t \<in> set objectPrototypeKeys \<longrightarrow> result (categoryKey t) \<noteq> None"
  shows "pushTask result t =
     Inr (result(categoryKey t \<mapsto>
            (case result (categoryKey t) of None \<Rightarrow> [] | Some xs \<Rightarrow> xs) @ [t]))"
  using assms by (cases "result (categoryKey t)") (simp_all add: pushTask_def)

lemma populate_result:
  assumes "\<forall>t \<in> set ts. categoryKey t \<in> set objectPrototypeKeys \<longrightarrow> result (categoryKey t) \<noteq> None"
  shows "\<exists>res. populate result ts = Inr res \<and>
     (\<forall>k. res k =
        (if result k = None \<and> k \<notin> categoryKey ` set ts then None
         else Some ((case result k of None \<Rightarrow> [] | Some xs \<Rightarrow> xs)
                      @ filter (\<lambda>t. categoryKey t = k) ts)))"
  using assms
proof (induction ts arbitrary: result)
  case Nil
  then show ?case
    by (auto split: option.splits)
next
  case (Cons t ts)
  let ?k = "categoryKey t"
  let ?r = "result(?k \<mapsto> (case result ?k of None \<Rightarrow> [] | Some xs \<Rightarrow> xs) @ [t])"
  have push: "pushTask result t = Inr ?r"
    using Cons.prems by (intro pushTask_update) simp
  have safe: "\<forall>u \<in> set ts. categoryKey u \<in> set objectPrototypeKeys \<longrightarrow> ?r (categoryKey u) \<noteq> None"
    using Cons.prems by simp
  from Cons.IH [OF safe] obtain res where
    res: "populate ?r ts = Inr res"
      "\<And>k. res k =
        (if ?r k = None \<and> k \<notin> categoryKey ` set ts then None
         else Some ((case ?r k of None \<Rightarrow> [] | Some xs \<Rightarrow> xs)
                      @ filter (\<lambda>t. categoryKey t = k) ts))"
    by blast
  have "populate result (t # ts) = Inr res"
    using push res(1) by simp
  moreover have "res k =
        (if result k = None \<and> k \<notin> categoryKey ` set (t # ts) then None
         else Some ((case result k of None \<Rightarrow> [] | Some xs \<Rightarrow> xs)
                      @ filter (\<lambda>t. categoryKey t = k) (t # ts)))" for k
    unfolding res(2) by (cases "k = ?k") (auto split: option.splits)
  ultimately show ?case
    by blast
qed

lemma groupByCategory_result:
  assumes "\<forall>t \<in> set ts. categoryKey t \<in> set objectPrototypeKeys \<longrightarrow> categoryKey t \<in> cat_id ` set cats"
  shows "\<exists>res. groupByCategory cats ts = Inr res \<and>
     (\<forall>k. res k =
        (if k = ''none'' \<or> k \<in> cat_id ` set cats \<or> k \<in> categoryKey ` set ts
         then Some (filter (\<lambda>t. categoryKey t = k) ts) else None))"
proof -
  have safe: "\<forall>t \<in> set ts. categoryKey t \<in> set objectPrototypeKeys \<longrightarrow>
      emptyBuckets cats (categoryKey t) \<noteq> None"
    using assms by (simp add: emptyBuckets_apply)
  from populate_result [OF safe] obtain res where
    res: "populate (emptyBuckets cats) ts = Inr res"
      "\<And>k. res k =
        (if emptyBuckets cats k = None \<and> k \<notin> categoryKey ` set ts then None
         else Some ((case emptyBuckets cats k of None \<Rightarrow> [] | Some xs \<Rightarrow> xs)
                      @ filter (\<lambda>t. categoryKey t = k) ts))"
    by blast
  have "res k =
        (if k = ''none'' \<or> k \<in> cat_id ` set cats \<or> k \<in> categoryKey ` set ts
         then Some (filter (\<lambda>t. categoryKey t = k) ts) else None)" for k
    unfolding res(2) by (simp add: emptyBuckets_apply)
  with res(1) show ?thesis
    by (simp add: groupByCategory_def)
qed

text \<open>The key of a task, spelled out.\<close>

lemma categoryKey_none:
  "categoryKey t = ''none'' \<longleftrightarrow>
     categoryId t = None \<or> categoryId t = Some [] \<or> categoryId t = Some ''none''"
  by (auto simp add: categoryKey_def split: option.splits)

lemma categoryKey_other:
  "k \<noteq> ''none'' \<Longrightarrow> categoryKey t = k \<longleftrightarrow> k \<noteq> [] \<and> categoryId t = Some k"
  by (auto simp add: categoryKey_def split: option.splits)

lemma categoryKey_Some:
  "categoryKey t \<noteq> ''none'' \<Longrightarrow> categoryKey t \<noteq> [] \<and> categoryId t = Some (categoryKey t)"
  by (auto simp add: categoryKey_def split: option.splits if_splits)

lemma categoryKey_image:
  "insert ''none'' (categoryKey ` set ts)
     = insert ''none'' {c. c \<noteq> [] \<and> (\<exists>t \<in> set ts. categoryId t = Some c)}"
proof (intro set_eqI iffI)
  fix k
  assume "k \<in> insert ''none'' (categoryKey ` set ts)"
  then show "k \<in> insert ''none'' {c. c \<noteq> [] \<and> (\<exists>t \<in> set ts. categoryId t = Some c)}"
    by (cases "k = ''none''") (auto dest: categoryKey_Some)
next
  fix k
  assume k: "k \<in> insert ''none'' {c. c \<noteq> [] \<and> (\<exists>t \<in> set ts. categoryId t = Some c)}"
  show "k \<in> insert ''none'' (categoryKey ` set ts)"
  proof (cases "k = ''none''")
    case True
    then show ?thesis by simp
  next
    case False
    with k obtain t where "t \<in> set ts" "k \<noteq> []" "categoryId t = Some k"
      by auto
    then have "categoryKey t = k"
      using False by (simp add: categoryKey_other)
    with \<open>t \<in> set ts\<close> show ?thesis
      by blast
  qed
qed

text \<open>
  Claim C4, as amended. Let no category have the identifier \<open>__proto__\<close>, and let every
  \<open>categoryId\<close> of a task that is the name of a property of \<open>Object.prototype\<close> be the
  identifier of a category. Then grouping by category succeeds. Its buckets are the bucket
  \<open>none\<close>, one bucket for the identifier of every category, present even when empty, and
  one bucket for every non-empty \<open>categoryId\<close> that a task of the list carries. The bucket
  \<open>none\<close> holds, in their order, the tasks whose \<open>categoryId\<close> is absent, is the empty
  string or is the string \<open>none\<close>. Every other bucket holds, in their order, the tasks
  whose \<open>categoryId\<close> is its key. So a task with a dangling reference other than \<open>none\<close>
  is in a bucket of that reference and not in the bucket \<open>none\<close>, and a category whose
  identifier is \<open>none\<close> has the bucket \<open>none\<close> as its bucket.
\<close>

theorem groupByCategory_buckets:
  assumes "''__proto__'' \<notin> cat_id ` set cats"
    and "\<forall>t \<in> set ts. \<forall>c. categoryId t = Some c \<and> c \<in> set objectPrototypeKeys
           \<longrightarrow> c \<in> cat_id ` set cats"
  shows "\<exists>res. groupByCategory cats ts = Inr res \<and>
     dom res = insert ''none'' (cat_id ` set cats)
                 \<union> {c. c \<noteq> [] \<and> (\<exists>t \<in> set ts. categoryId t = Some c)} \<and>
     res ''none'' =
       Some (filter (\<lambda>t. categoryId t = None \<or> categoryId t = Some [] \<or>
                          categoryId t = Some ''none'') ts) \<and>
     (\<forall>k \<in> dom res. k \<noteq> ''none'' \<longrightarrow>
        res k = Some (filter (\<lambda>t. k \<noteq> [] \<and> categoryId t = Some k) ts))"
proof -
  have "''none'' \<notin> set objectPrototypeKeys"
    by (simp add: objectPrototypeKeys_def)
  then have safe: "\<forall>t \<in> set ts. categoryKey t \<in> set objectPrototypeKeys
      \<longrightarrow> categoryKey t \<in> cat_id ` set cats"
    using assms(2) by (metis categoryKey_Some)
  from groupByCategory_result [OF safe] obtain res where
    g: "groupByCategory cats ts = Inr res" and
    r: "\<And>k. res k =
        (if k = ''none'' \<or> k \<in> cat_id ` set cats \<or> k \<in> categoryKey ` set ts
         then Some (filter (\<lambda>t. categoryKey t = k) ts) else None)"
    by blast
  have "dom res = insert ''none'' (cat_id ` set cats) \<union> insert ''none'' (categoryKey ` set ts)"
    by (auto simp add: dom_def r)
  then have d: "dom res = insert ''none'' (cat_id ` set cats)
                 \<union> {c. c \<noteq> [] \<and> (\<exists>t \<in> set ts. categoryId t = Some c)}"
    unfolding categoryKey_image by auto
  have n: "res ''none'' =
       Some (filter (\<lambda>t. categoryId t = None \<or> categoryId t = Some [] \<or>
                          categoryId t = Some ''none'') ts)"
    by (simp add: r categoryKey_none)
  have o: "res k = Some (filter (\<lambda>t. k \<noteq> [] \<and> categoryId t = Some k) ts)"
    if "k \<in> dom res" "k \<noteq> ''none''" for k
  proof -
    from that(1) have "res k \<noteq> None"
      by (simp add: dom_def)
    with r [of k] have "res k = Some (filter (\<lambda>t. categoryKey t = k) ts)"
      by (simp split: if_splits)
    then show ?thesis
      using that(2) by (simp add: categoryKey_other)
  qed
  show ?thesis
  proof (intro exI conjI ballI impI)
    show "groupByCategory cats ts = Inr res"
      by (rule g)
    show "dom res = insert ''none'' (cat_id ` set cats)
                 \<union> {c. c \<noteq> [] \<and> (\<exists>t \<in> set ts. categoryId t = Some c)}"
      by (rule d)
    show "res ''none'' =
       Some (filter (\<lambda>t. categoryId t = None \<or> categoryId t = Some [] \<or>
                          categoryId t = Some ''none'') ts)"
      by (rule n)
    show "res k = Some (filter (\<lambda>t. k \<noteq> [] \<and> categoryId t = Some k) ts)"
      if "k \<in> dom res" "k \<noteq> ''none''" for k
      using that by (rule o)
  qed
qed

text \<open>
  Among the sample tasks, \<open>taskA\<close> refers to the category \<open>1\<close>, \<open>taskB\<close> has no
  \<open>categoryId\<close>, \<open>taskD\<close> refers to a category \<open>9\<close> that does not exist, and the
  \<open>categoryId\<close> of \<open>taskE\<close> is the empty string.
\<close>

theorem groupByCategory_buckets_witness:
  "\<not> isl (groupByCategory [catWork, catPersonal] [taskA, taskB, taskD, taskE]) \<and>
   dom (projr (groupByCategory [catWork, catPersonal] [taskA, taskB, taskD, taskE]))
     = {''none'', ''1'', ''2'', ''9''} \<and>
   projr (groupByCategory [catWork, catPersonal] [taskA, taskB, taskD, taskE]) ''none''
     = Some [taskB, taskE] \<and>
   projr (groupByCategory [catWork, catPersonal] [taskA, taskB, taskD, taskE]) ''1''
     = Some [taskA] \<and>
   projr (groupByCategory [catWork, catPersonal] [taskA, taskB, taskD, taskE]) ''2''
     = Some [] \<and>
   projr (groupByCategory [catWork, catPersonal] [taskA, taskB, taskD, taskE]) ''9''
     = Some [taskD]"
proof -
  note defs = objectPrototypeKeys_def taskA_def taskB_def taskD_def taskE_def
    catWork_def catPersonal_def
  have h1: "''__proto__'' \<notin> cat_id ` set [catWork, catPersonal]"
    by (simp add: defs)
  have h2: "\<forall>t \<in> set [taskA, taskB, taskD, taskE].
      \<forall>c. categoryId t = Some c \<and> c \<in> set objectPrototypeKeys
        \<longrightarrow> c \<in> cat_id ` set [catWork, catPersonal]"
    by (simp add: defs)
  from groupByCategory_buckets [OF h1 h2] obtain res where
    g: "groupByCategory [catWork, catPersonal] [taskA, taskB, taskD, taskE] = Inr res" and
    d: "dom res = insert ''none'' (cat_id ` set [catWork, catPersonal])
         \<union> {c. c \<noteq> [] \<and> (\<exists>t \<in> set [taskA, taskB, taskD, taskE]. categoryId t = Some c)}" and
    n: "res ''none'' =
       Some (filter (\<lambda>t. categoryId t = None \<or> categoryId t = Some [] \<or>
                          categoryId t = Some ''none'') [taskA, taskB, taskD, taskE])" and
    o: "\<forall>k \<in> dom res. k \<noteq> ''none'' \<longrightarrow>
        res k = Some (filter (\<lambda>t. k \<noteq> [] \<and> categoryId t = Some k)
                        [taskA, taskB, taskD, taskE])"
    by blast
  have keys: "dom res = {''none'', ''1'', ''2'', ''9''}"
    unfolding d by (auto simp add: defs)
  have "res ''none'' = Some [taskB, taskE]"
    unfolding n by (simp add: defs)
  moreover have "res ''1'' = Some [taskA]"
    using o keys by (simp add: defs)
  moreover have "res ''2'' = Some []"
    using o keys by (simp add: defs)
  moreover have "res ''9'' = Some [taskD]"
    using o keys by (simp add: defs)
  ultimately show ?thesis
    using g keys by simp
qed

text \<open>
  With the categories \<open>[catWork]\<close>, the task \<open>taskD\<close> refers to a category \<open>9\<close> that
  does not exist. There is a bucket \<open>9\<close> that holds it, and the bucket \<open>none\<close> is empty.
\<close>

theorem dangling_reference_counterexample:
  "categoryId taskD = Some ''9'' \<and> ''9'' \<notin> cat_id ` set [catWork] \<and>
   \<not> isl (groupByCategory [catWork] [taskD]) \<and>
   projr (groupByCategory [catWork] [taskD]) ''none'' = Some [] \<and>
   projr (groupByCategory [catWork] [taskD]) ''9'' = Some [taskD] \<and>
   dom (projr (groupByCategory [catWork] [taskD])) = {''none'', ''1'', ''9''}"
proof -
  have g: "groupByCategory [catWork] [taskD]
      = Inr ([''none'' \<mapsto> [], ''1'' \<mapsto> [], ''9'' \<mapsto> [taskD]])"
    by (simp add: groupByCategory_def emptyBuckets_def pushTask_def categoryKey_def Let_def
        taskD_def taskA_def catWork_def objectPrototypeKeys_def)
  have "categoryId taskD = Some ''9'' \<and> ''9'' \<notin> cat_id ` set [catWork]"
    by (simp add: taskD_def taskA_def catWork_def)
  then show ?thesis
    unfolding g by auto
qed

section \<open>Grouping by date\<close>

lemma startOfDay_dayNumber: "startOfDay tz t = dayNumber tz t * msPerDay - tz"
proof -
  have "(t + tz) - (t + tz) mod msPerDay = (t + tz) div msPerDay * msPerDay"
    by (rule minus_mod_eq_div_mult)
  then show ?thesis
    by (simp add: startOfDay_def dayNumber_def)
qed

lemma startOfDay_less: "startOfDay tz d < startOfDay tz n \<longleftrightarrow> dayNumber tz d < dayNumber tz n"
  unfolding startOfDay_dayNumber msPerDay_def by arith

lemma startOfDay_eq: "startOfDay tz d = startOfDay tz n \<longleftrightarrow> dayNumber tz d = dayNumber tz n"
  unfolding startOfDay_dayNumber msPerDay_def by arith

lemma startOfDay_next:
  "startOfDay tz d = startOfDay tz n + msPerDay \<longleftrightarrow> dayNumber tz d = dayNumber tz n + 1"
  unfolding startOfDay_dayNumber msPerDay_def by arith

lemma foldl_placeByDate:
  "foldl (placeByDate tz td tm) acc ts =
     \<lparr> b_overdue = b_overdue acc @
         filter (\<lambda>t. \<exists>d. dueDate t = Some d \<and> dateBefore (setHours0 tz d) td \<and>
                        status t \<noteq> Completed) ts,
       b_today = b_today acc @
         filter (\<lambda>t. \<exists>d. dueDate t = Some d \<and>
                        \<not> (dateBefore (setHours0 tz d) td \<and> status t \<noteq> Completed) \<and>
                        getTimeIs (setHours0 tz d) td) ts,
       b_tomorrow = b_tomorrow acc @
         filter (\<lambda>t. \<exists>d. dueDate t = Some d \<and>
                        \<not> (dateBefore (setHours0 tz d) td \<and> status t \<noteq> Completed) \<and>
                        \<not> getTimeIs (setHours0 tz d) td \<and> getTimeIs (setHours0 tz d) tm) ts,
       b_upcoming = b_upcoming acc @
         filter (\<lambda>t. \<exists>d. dueDate t = Some d \<and>
                        \<not> (dateBefore (setHours0 tz d) td \<and> status t \<noteq> Completed) \<and>
                        \<not> getTimeIs (setHours0 tz d) td \<and> \<not> getTimeIs (setHours0 tz d) tm) ts,
       b_no_date = b_no_date acc @ filter (\<lambda>t. dueDate t = None) ts \<rparr>"
proof (induction ts arbitrary: acc)
  case Nil
  then show ?case by simp
next
  case (Cons t ts)
  show ?case
    unfolding foldl_Cons Cons.IH
    by (cases "dueDate t") (simp_all add: placeByDate_def Let_def)
qed

lemma dateBefore_today:
  "dateBefore (setHours0 tz d) (startOfDay tz now)
     \<longleftrightarrow> (\<exists>n. d = Date n \<and> dayNumber tz n < dayNumber tz now)"
  by (cases d) (simp_all add: startOfDay_less)

lemma getTimeIs_today:
  "getTimeIs (setHours0 tz d) (startOfDay tz now)
     \<longleftrightarrow> (\<exists>n. d = Date n \<and> dayNumber tz n = dayNumber tz now)"
  by (cases d) (simp_all add: startOfDay_eq)

lemma getTimeIs_tomorrow:
  "getTimeIs (setHours0 tz d) (startOfDay tz now + msPerDay)
     \<longleftrightarrow> (\<exists>n. d = Date n \<and> dayNumber tz n = dayNumber tz now + 1)"
  by (cases d) (simp_all add: startOfDay_next)

text \<open>
  What the date grouping computes, in terms of day numbers: the first four tests of the
  chain compare the local day of the due date with the local day of the clock, and the
  last bucket receives every task with a due date that the tests before it let through.
\<close>

lemma groupByDate_buckets:
  "groupByDate tz now ts =
     \<lparr> b_overdue =
         filter (\<lambda>t. \<exists>n. dueDate t = Some (Date n) \<and> dayNumber tz n < dayNumber tz now \<and>
                        status t \<noteq> Completed) ts,
       b_today =
         filter (\<lambda>t. \<exists>n. dueDate t = Some (Date n) \<and> dayNumber tz n = dayNumber tz now) ts,
       b_tomorrow =
         filter (\<lambda>t. \<exists>n. dueDate t = Some (Date n) \<and> dayNumber tz n = dayNumber tz now + 1) ts,
       b_upcoming =
         filter (\<lambda>t. dueDate t = Some InvalidDate \<or>
                      (\<exists>n. dueDate t = Some (Date n) \<and>
                           (dayNumber tz now + 1 < dayNumber tz n \<or>
                            dayNumber tz n < dayNumber tz now \<and> status t = Completed))) ts,
       b_no_date = filter (\<lambda>t. dueDate t = None) ts \<rparr>"
proof -
  have o: "(\<exists>d. dueDate t = Some d \<and> dateBefore (setHours0 tz d) (startOfDay tz now) \<and>
                status t \<noteq> Completed)
      \<longleftrightarrow> (\<exists>n. dueDate t = Some (Date n) \<and> dayNumber tz n < dayNumber tz now \<and>
                status t \<noteq> Completed)" for t
    by (auto simp add: dateBefore_today)
  have td: "(\<exists>d. dueDate t = Some d \<and>
                \<not> (dateBefore (setHours0 tz d) (startOfDay tz now) \<and> status t \<noteq> Completed) \<and>
                getTimeIs (setHours0 tz d) (startOfDay tz now))
      \<longleftrightarrow> (\<exists>n. dueDate t = Some (Date n) \<and> dayNumber tz n = dayNumber tz now)" for t
    by (auto simp add: dateBefore_today getTimeIs_today)
  have tm: "(\<exists>d. dueDate t = Some d \<and>
                \<not> (dateBefore (setHours0 tz d) (startOfDay tz now) \<and> status t \<noteq> Completed) \<and>
                \<not> getTimeIs (setHours0 tz d) (startOfDay tz now) \<and>
                getTimeIs (setHours0 tz d) (startOfDay tz now + msPerDay))
      \<longleftrightarrow> (\<exists>n. dueDate t = Some (Date n) \<and> dayNumber tz n = dayNumber tz now + 1)" for t
    by (auto simp add: dateBefore_today getTimeIs_today getTimeIs_tomorrow)
  have up: "(\<exists>d. dueDate t = Some d \<and>
                \<not> (dateBefore (setHours0 tz d) (startOfDay tz now) \<and> status t \<noteq> Completed) \<and>
                \<not> getTimeIs (setHours0 tz d) (startOfDay tz now) \<and>
                \<not> getTimeIs (setHours0 tz d) (startOfDay tz now + msPerDay))
      \<longleftrightarrow> (dueDate t = Some InvalidDate \<or>
                      (\<exists>n. dueDate t = Some (Date n) \<and>
                           (dayNumber tz now + 1 < dayNumber tz n \<or>
                            dayNumber tz n < dayNumber tz now \<and> status t = Completed)))" for t
  proof (cases "dueDate t")
    case None
    then show ?thesis by simp
  next
    case (Some d)
    then show ?thesis
      by (cases d) (auto simp add: dateBefore_today getTimeIs_today getTimeIs_tomorrow)
  qed
  show ?thesis
    unfolding groupByDate_def Let_def foldl_placeByDate o td tm up
    by (simp add: emptyDateBuckets_def)
qed

text \<open>
  Claim C3 does not hold of the code. The chain of tests ends in an \<open>else\<close> that takes
  every task left over, so a completed task whose due date is before today is put into
  \<open>upcoming\<close>. Here the clock is in day 2 (UTC), and \<open>taskB\<close> is completed and due on day 1.
\<close>

theorem completed_past_due_is_upcoming:
  "status taskB = Completed \<and> dueDate taskB = Some (Date msPerDay) \<and>
   startOfDay 0 (2 * msPerDay + 5000) = 2 * msPerDay \<and>
   groupByDate 0 (2 * msPerDay + 5000) [taskB] = emptyDateBuckets\<lparr>b_upcoming := [taskB]\<rparr>"
  by (simp add: groupByDate_def placeByDate_def startOfDay_def msPerDay_def
      emptyDateBuckets_def taskB_def Let_def)

section \<open>Persistence\<close>

lemma rehydrate_stringifyTask:
  assumes "\<forall>d \<in> set (datesOf t).
      \<exists>n. d = Date n \<and> parseDate (toISOString n) = Date n \<and> toISOString n \<noteq> []"
  shows "rehydrate parseDate (stringifyTask toISOString t) = t"
proof -
  from assms obtain c where c: "createdAt t = Date c" "parseDate (toISOString c) = Date c"
    by (auto simp add: datesOf_def)
  from assms obtain u where u: "updatedAt t = Date u" "parseDate (toISOString u) = Date u"
    by (auto simp add: datesOf_def)
  have due: "rehydrateDueDate parseDate (map_option (toJSON toISOString) (dueDate t)) = dueDate t"
  proof (cases "dueDate t")
    case None
    then show ?thesis by simp
  next
    case (Some d)
    with assms obtain n where "d = Date n" "parseDate (toISOString n) = Date n" "toISOString n \<noteq> []"
      by (auto simp add: datesOf_def)
    with Some show ?thesis by simp
  qed
  show ?thesis
    by (simp add: rehydrate_def stringifyTask_def c u due)
qed

text \<open>
  Claim C9, as amended. Let every \<open>createdAt\<close>, \<open>updatedAt\<close> and \<open>dueDate\<close> of the
  collection be a valid date, and let the platform's parser of date strings return, for the
  ISO string of each of these dates, the date itself (the ISO string being non-empty).
  Then saving the collection and loading it again gives the collection back, with every
  field of every task, the absent optional fields included.
\<close>

theorem persistence_round_trip:
  assumes "\<forall>t \<in> set ts. \<forall>d \<in> set (datesOf t).
      \<exists>n. d = Date n \<and> parseDate (toISOString n) = Date n \<and> toISOString n \<noteq> []"
  shows "loadTasks parseDate (saveTasks toISOString ts) = ts"
  using assms
  by (simp add: loadTasks_def saveTasks_def rehydrate_stringifyTask map_idI)

theorem persistence_round_trip_witness:
  "loadTasks sampleParseDate (saveTasks sampleToISOString [taskA, taskB]) = [taskA, taskB]"
proof -
  have h: "\<forall>t \<in> set [taskA, taskB]. \<forall>d \<in> set (datesOf t).
      \<exists>n. d = Date n \<and> sampleParseDate (sampleToISOString n) = Date n \<and>
          sampleToISOString n \<noteq> []"
    by (simp add: datesOf_def taskA_def taskB_def sampleParseDate_def sampleToISOString_def)
  from persistence_round_trip [OF h] show ?thesis .
qed

text \<open>
  An invalid date is stored as \<open>null\<close>. On loading, \<open>createdAt\<close> becomes the epoch and
  \<open>dueDate\<close> becomes undefined.
\<close>

theorem invalid_date_round_trip_counterexample:
  "createdAt taskF = InvalidDate \<and> dueDate taskF = Some InvalidDate \<and>
   loadTasks sampleParseDate (saveTasks sampleToISOString [taskF])
     = [taskF\<lparr>createdAt := Date 0, dueDate := None\<rparr>] \<and>
   loadTasks sampleParseDate (saveTasks sampleToISOString [taskF]) \<noteq> [taskF]"
  by (simp add: loadTasks_def saveTasks_def rehydrate_def stringifyTask_def taskF_def taskB_def
      sampleParseDate_def sampleToISOString_def)

end
